theory Spec2Isabelle
  imports Main "HOL-Library.Sublist"
begin

section \<open>Strings of the service\<close>

text \<open>
  A Python \<open>str\<close> is a sequence of code points. A \<^typ>\<open>char\<close> stands here for one
  code point of the range U+0000 .. U+00FF (\<^term>\<open>of_char c\<close> is its number), so a
  \<^typ>\<open>string\<close> is a \<open>str\<close> over that range and \<^term>\<open>length\<close> counts code points,
  as \<open>len\<close> does. The range is closed under \<open>str.lower\<close>, \<open>str.strip\<close> and
  \<open>str.split\<close>, whose behaviour on it is written out below.
\<close>

text \<open>\<open>str.lower\<close>: A..Z and the capital letters U+00C0 .. U+00DE (U+00D7, the
  multiplication sign, apart) move up by 32; every other code point stays.\<close>

definition lower_char :: "char \<Rightarrow> char" where
  "lower_char c =
     (let n = (of_char c :: nat) in
      if (65 \<le> n \<and> n \<le> 90) \<or> (192 \<le> n \<and> n \<le> 222 \<and> n \<noteq> 215)
      then char_of (n + 32) else c)"

definition lower :: "string \<Rightarrow> string" where
  "lower s = map lower_char s"

text \<open>The white space of \<open>str.strip()\<close> and \<open>str.split()\<close> (both without argument):
  U+0009 .. U+000D, U+001C .. U+0020, U+0085 and U+00A0.\<close>

definition isspace :: "char \<Rightarrow> bool" where
  "isspace c =
     (let n = (of_char c :: nat) in
      (9 \<le> n \<and> n \<le> 13) \<or> (28 \<le> n \<and> n \<le> 32) \<or> n = 133 \<or> n = 160)"

definition strip :: "string \<Rightarrow> string" where
  "strip s = rev (dropWhile isspace (rev (dropWhile isspace s)))"

text \<open>\<open>str.split()\<close>: skip white space, take the run of other characters as one
  token, go on behind it.\<close>

function split :: "string \<Rightarrow> string list" where
  "split [] = []"
| "split (c # cs) =
     (if isspace c then split cs
      else (c # takeWhile (\<lambda>x. \<not> isspace x) cs) # split (dropWhile (\<lambda>x. \<not> isspace x) cs))"
  by pat_completeness auto
termination
  by (relation "measure length") (auto simp: length_dropWhile_le less_Suc_eq_le)

text \<open>The exceptions that the functions below raise, with their arguments.\<close>

datatype exn = ValueError string | HTTPException nat string

text \<open>The regular expression classes \<open>\d\<close> and \<open>[a-z]\<close>.\<close>

definition isdigit :: "char \<Rightarrow> bool" where
  "isdigit c = (let n = (of_char c :: nat) in 48 \<le> n \<and> n \<le> 57)"

definition is_a_to_z :: "char \<Rightarrow> bool" where
  "is_a_to_z c = (let n = (of_char c :: nat) in 97 \<le> n \<and> n \<le> 122)"

text \<open>
  \<open>int\<close> on a run of decimal digits. Python integers are unbounded, and the result is a
  natural number here; but the interpreter refuses to convert a text of more than
  \<open>sys.get_int_max_str_digits()\<close> digits, 4300 unless it is configured otherwise, and raises
  a \<open>ValueError\<close> whose message gives the limit and the number of digits.
\<close>

definition digit_value :: "char \<Rightarrow> nat" where
  "digit_value c = of_char c - 48"

definition decimal_value :: "string \<Rightarrow> nat" where
  "decimal_value ds = foldl (\<lambda>n c. 10 * n + digit_value c) 0 ds"

definition int_max_str_digits :: nat where
  "int_max_str_digits = 4300"

text \<open>\<open>str\<close> of a natural number, for the message.\<close>

function str_of_nat :: "nat \<Rightarrow> string" where
  "str_of_nat n =
     (if n < 10 then [char_of (48 + n)]
      else str_of_nat (n div 10) @ [char_of (48 + n mod 10)])"
  by pat_completeness auto
termination
  by (relation "measure (\<lambda>n. n)") auto

declare str_of_nat.simps [simp del]

definition int_limit_message :: "nat \<Rightarrow> string" where
  "int_limit_message n =
     ''Exceeds the limit (4300 digits) for integer string conversion: value has '' @
     str_of_nat n @ '' digits; use sys.set_int_max_str_digits() to increase the limit''"

definition int_of_str :: "string \<Rightarrow> exn + nat" where
  "int_of_str ds =
     (if int_max_str_digits < length ds
      then Inl (ValueError (int_limit_message (length ds)))
      else Inr (decimal_value ds))"

section \<open>Regular expressions of the translator\<close>

text \<open>
  A pattern is matched at the start of a text by backtracking: each piece returns the
  texts that may remain behind it, in the order in which the engine tries them.
  \<open>lit p\<close> is the literal \<open>p\<close>.
\<close>

definition lit :: "string \<Rightarrow> string \<Rightarrow> string list" where
  "lit p s = (if prefix p s then [drop (length p) s] else [])"

text \<open>\<open>re.search\<close>: the match at the leftmost position where the pattern matches.\<close>

fun re_search :: "(string \<Rightarrow> 'a option) \<Rightarrow> string \<Rightarrow> 'a option" where
  "re_search m [] = m []"
| "re_search m (c # cs) =
     (case m (c # cs) of Some g \<Rightarrow> Some g | None \<Rightarrow> re_search m cs)"

text \<open>\<open>(single|one) word\<close>\<close>

definition match_single_one_word :: "string \<Rightarrow> unit option" where
  "match_single_one_word s =
     (case [r2. r1 \<leftarrow> lit ''single'' s @ lit ''one'' s, r2 \<leftarrow> lit '' word'' r1] of
        [] \<Rightarrow> None
      | r # rs \<Rightarrow> Some ())"

text \<open>\<open>longer than (\d+)\<close>: the group is the whole run of digits (\<open>+\<close> is greedy and
  nothing follows it).\<close>

definition match_longer_than :: "string \<Rightarrow> string option" where
  "match_longer_than s =
     (case [takeWhile isdigit r1. r1 \<leftarrow> lit ''longer than '' s, takeWhile isdigit r1 \<noteq> []] of
        [] \<Rightarrow> None
      | g # gs \<Rightarrow> Some g)"

text \<open>\<open>contain(?:ing|s)? (?:the )?letter ([a-z])\<close>: the group is the letter.\<close>

definition match_contains_letter :: "string \<Rightarrow> char option" where
  "match_contains_letter s =
     (case [x. r1 \<leftarrow> lit ''contain'' s,
               r2 \<leftarrow> lit ''ing'' r1 @ lit ''s'' r1 @ [r1],
               r3 \<leftarrow> lit '' '' r2,
               r4 \<leftarrow> lit ''the '' r3 @ [r3],
               r5 \<leftarrow> lit ''letter '' r4,
               x \<leftarrow> take 1 r5, is_a_to_z x] of
        [] \<Rightarrow> None
      | g # gs \<Rightarrow> Some g)"

text \<open>\<open>first vowel\<close>\<close>

definition match_first_vowel :: "string \<Rightarrow> unit option" where
  "match_first_vowel s = (case lit ''first vowel'' s of [] \<Rightarrow> None | r # rs \<Rightarrow> Some ())"

section \<open>Data model\<close>

text \<open>
  The dictionary returned by \<open>compute_properties\<close> has six fixed keys; the counts are
  natural numbers (\<open>len\<close> and occurrence counts). The frequency dictionary is a map from
  characters (the one-character strings of Python) to counts.
\<close>

record properties =
  length_prop :: nat
  is_palindrome_prop :: bool
  unique_characters :: nat
  word_count_prop :: nat
  sha256_hash :: string
  character_frequency_map :: "char \<rightharpoonup> nat"

text \<open>
  The filters: the five optional query parameters of \<open>list_strings\<close>, and the dictionary
  \<open>parsed\<close> of \<open>parse_nl_query\<close>, whose keys are among the same five names. A key that is
  absent (a parameter that is \<open>None\<close>) is \<^term>\<open>None\<close>.
\<close>

record filters =
  is_palindrome :: "bool option"
  min_length :: "nat option"
  max_length :: "nat option"
  word_count :: "nat option"
  contains_character :: "char option"

definition no_filters :: filters where
  "no_filters = \<lparr>is_palindrome = None, min_length = None, max_length = None,
                  word_count = None, contains_character = None\<rparr>"

record string_entry =
  entry_id :: string
  entry_value :: string
  entry_properties :: properties
  created_at :: nat

record listing =
  data :: "string_entry list"
  count :: nat
  filters_applied :: filters

section \<open>compute_properties\<close>

text \<open>\<open>freq.get(ch, 0)\<close>\<close>

definition get_count :: "(char \<rightharpoonup> nat) \<Rightarrow> char \<Rightarrow> nat" where
  "get_count freq ch = (case freq ch of None \<Rightarrow> 0 | Some n \<Rightarrow> n)"

definition count_characters :: "string \<Rightarrow> (char \<rightharpoonup> nat)" where
  "count_characters v = foldl (\<lambda>freq ch. freq(ch \<mapsto> get_count freq ch + 1)) Map.empty v"

text \<open>The digest \<open>hashlib.sha256(v.encode("utf-8")).hexdigest()\<close> is the parameter
  \<open>sha256_hex\<close>.\<close>

definition compute_properties :: "(string \<Rightarrow> string) \<Rightarrow> string \<Rightarrow> properties" where
  "compute_properties sha256_hex v =
     \<lparr>length_prop = length v,
      is_palindrome_prop = (lower v = rev (lower v)),
      unique_characters = card (set v),
      word_count_prop = (if strip v = [] then 0 else length (split v)),
      sha256_hash = sha256_hex v,
      character_frequency_map = count_characters v\<rparr>"

section \<open>parse_nl_query\<close>

text \<open>
  The five rules, in the order of the source, on the lower-cased query. Rule 2 calls
  \<open>int\<close> on the group; when that raises, the exception leaves \<open>parse_nl_query\<close> at once
  and the rules behind it do not run.
\<close>

definition parse_rules :: "string \<Rightarrow> exn + filters" where
  "parse_rules q_lower =
     (let parsed = no_filters;
          parsed = (if re_search match_single_one_word q_lower \<noteq> None
                    then parsed\<lparr>word_count := Some 1\<rparr> else parsed)
      in case (case re_search match_longer_than q_lower of
                 Some g \<Rightarrow>
                   (case int_of_str g of
                      Inl e \<Rightarrow> Inl e
                    | Inr n \<Rightarrow> Inr (parsed\<lparr>min_length := Some (n + 1)\<rparr>))
               | None \<Rightarrow> Inr parsed) of
           Inl e \<Rightarrow> Inl e
         | Inr parsed \<Rightarrow>
            (let parsed = (if sublist ''palindrom'' q_lower
                           then parsed\<lparr>is_palindrome := Some True\<rparr> else parsed);
                 parsed = (case re_search match_contains_letter q_lower of
                             Some g \<Rightarrow> parsed\<lparr>contains_character := Some g\<rparr>
                           | None \<Rightarrow> parsed);
                 parsed = (if re_search match_first_vowel q_lower \<noteq> None
                           then parsed\<lparr>contains_character := Some CHR ''a''\<rparr> else parsed)
             in Inr parsed))"

text \<open>The two checks behind the rules: the conflict of the two lengths, then the empty
  dictionary.\<close>

definition check_parsed :: "filters \<Rightarrow> exn + filters" where
  "check_parsed parsed =
     (if (case (min_length parsed, max_length parsed) of
            (Some lo, Some hi) \<Rightarrow> lo > hi
          | _ \<Rightarrow> False)
      then Inl (ValueError ''Query parsed but resulted in conflicting filters'')
      else if parsed = no_filters
      then Inl (ValueError ''Unable to parse natural language query'')
      else Inr parsed)"

definition parse_nl_query :: "string \<Rightarrow> exn + filters" where
  "parse_nl_query q =
     (case parse_rules (lower q) of
        Inl e \<Rightarrow> Inl e
      | Inr parsed \<Rightarrow> check_parsed parsed)"

section \<open>list_strings and nl_filter\<close>

text \<open>The body of the loop over the rows: \<open>ok\<close> starts true and each filter that is
  given and fails sets it to false.\<close>

definition row_ok :: "filters \<Rightarrow> properties \<Rightarrow> bool" where
  "row_ok flt props =
     (let ok = True;
          ok = (if is_palindrome flt \<noteq> None \<and> Some (is_palindrome_prop props) \<noteq> is_palindrome flt
                then False else ok);
          ok = (case min_length flt of
                  Some n \<Rightarrow> if length_prop props < n then False else ok | None \<Rightarrow> ok);
          ok = (case max_length flt of
                  Some n \<Rightarrow> if length_prop props > n then False else ok | None \<Rightarrow> ok);
          ok = (if word_count flt \<noteq> None \<and> Some (word_count_prop props) \<noteq> word_count flt
                then False else ok);
          ok = (case contains_character flt of
                  Some c \<Rightarrow> if get_count (character_frequency_map props) c = 0 then False else ok
                | None \<Rightarrow> ok)
      in ok)"

definition list_strings :: "filters \<Rightarrow> string_entry list \<Rightarrow> exn + listing" where
  "list_strings flt rows =
     (if (case (min_length flt, max_length flt) of
            (Some lo, Some hi) \<Rightarrow> lo > hi
          | _ \<Rightarrow> False)
      then Inl (HTTPException 400 ''min_length cannot be greater than max_length'')
      else (let results = filter (\<lambda>r. row_ok flt (entry_properties r)) rows
            in Inr \<lparr>data = results, count = length results, filters_applied = flt\<rparr>))"

text \<open>\<open>nl_filter\<close>: a \<open>ValueError\<close> of the translator becomes status 422 when its message
  mentions a conflict and 400 otherwise; the parsed filters go to \<open>list_strings\<close>.\<close>

definition nl_filter :: "string \<Rightarrow> string_entry list \<Rightarrow> exn + (listing \<times> string \<times> filters)" where
  "nl_filter query rows =
     (case parse_nl_query query of
        Inl (ValueError e) \<Rightarrow>
          if sublist ''conflicting'' (lower e) then Inl (HTTPException 422 e)
          else Inl (HTTPException 400 e)
      | Inl e \<Rightarrow> Inl e
      | Inr parsed \<Rightarrow>
          (case list_strings parsed rows of
             Inl e \<Rightarrow> Inl e
           | Inr result \<Rightarrow> Inr (result, query, parsed)))"

section \<open>The word count in the words of the specification\<close>

text \<open>
  The specification counts the tokens of the trimmed text split on runs of white space.
  \<open>split_on_whitespace_runs\<close> cuts a text at each maximal run of white space, as a
  separator: white space at either end leaves an empty token there.
\<close>

function split_on_whitespace_runs :: "string \<Rightarrow> string list" where
  "split_on_whitespace_runs s =
     (if dropWhile (\<lambda>x. \<not> isspace x) s = [] then [s]
      else takeWhile (\<lambda>x. \<not> isspace x) s #
           split_on_whitespace_runs (dropWhile isspace (dropWhile (\<lambda>x. \<not> isspace x) s)))"
  by pat_completeness auto
termination
proof (relation "measure length")
  show "wf (measure length)" by simp
next
  fix s :: string
  assume ne: "dropWhile (\<lambda>x. \<not> isspace x) s \<noteq> []"
  then have "isspace (hd (dropWhile (\<lambda>x. \<not> isspace x) s))"
    using hd_dropWhile [of "\<lambda>x. \<not> isspace x" s] by simp
  then have "length (dropWhile isspace (dropWhile (\<lambda>x. \<not> isspace x) s))
               < length (dropWhile (\<lambda>x. \<not> isspace x) s)"
    using ne by (cases "dropWhile (\<lambda>x. \<not> isspace x) s")
                (auto simp: length_dropWhile_le less_Suc_eq_le)
  also have "\<dots> \<le> length s" by (rule length_dropWhile_le)
  finally show "(dropWhile isspace (dropWhile (\<lambda>x. \<not> isspace x) s), s) \<in> measure length"
    by simp
qed

declare split_on_whitespace_runs.simps [simp del]

section \<open>The five rules in the words of the specification\<close>

text \<open>
  What it means for the lower-cased text \<open>t\<close> to mention each of the five constructs:
  \<^item> rule 1: \<open>single word\<close> or \<open>one word\<close> occurs in \<open>t\<close>;
  \<^item> rule 2: \<open>longer than\<close>, one space and a decimal digit occur in \<open>t\<close>;
  \<^item> rule 3: \<open>palindrom\<close> occurs in \<open>t\<close>;
  \<^item> rule 4: one of the six phrases \<open>contain[ing|s] [the] letter\<close>, followed by a
    letter of a..z, occurs in \<open>t\<close>;
  \<^item> rule 5: \<open>first vowel\<close> occurs in \<open>t\<close>.
  Occurrence is occurrence as a contiguous part (\<^const>\<open>sublist\<close>), at any position.
\<close>

definition letter_phrases :: "string list" where
  "letter_phrases =
     [''containing the letter '', ''containing letter '', ''contains the letter '',
      ''contains letter '', ''contain the letter '', ''contain letter '']"

definition mentions_single_word :: "string \<Rightarrow> bool" where
  "mentions_single_word t \<longleftrightarrow> sublist ''single word'' t \<or> sublist ''one word'' t"

definition mentions_longer_than :: "string \<Rightarrow> bool" where
  "mentions_longer_than t \<longleftrightarrow> (\<exists>d. isdigit d \<and> sublist (''longer than '' @ [d]) t)"

text \<open>
  The number of rule 2 is the run of digits \<open>ds\<close> of the leftmost occurrence: the text is
  \<open>pre\<close>, \<open>longer than\<close> and one space, \<open>ds\<close>, \<open>post\<close>, where \<open>ds\<close> is not empty, no digit
  follows it, and no occurrence of \<open>longer than\<close>, one space and a digit begins before the
  end of \<open>pre\<close>.
\<close>

definition leftmost_longer_than :: "string \<Rightarrow> string \<Rightarrow> bool" where
  "leftmost_longer_than t ds \<longleftrightarrow>
     (\<exists>pre post. t = pre @ ''longer than '' @ ds @ post \<and> ds \<noteq> [] \<and>
        (\<forall>c\<in>set ds. isdigit c) \<and> (post = [] \<or> \<not> isdigit (hd post)) \<and>
        (\<forall>pre' d rest. t = pre' @ ''longer than '' @ d # rest \<and> isdigit d
           \<longrightarrow> length pre \<le> length pre'))"

definition mentions_palindrome :: "string \<Rightarrow> bool" where
  "mentions_palindrome t \<longleftrightarrow> sublist ''palindrom'' t"

definition mentions_letter :: "string \<Rightarrow> bool" where
  "mentions_letter t \<longleftrightarrow>
     (\<exists>x p. is_a_to_z x \<and> p \<in> set letter_phrases \<and> sublist (p @ [x]) t)"

definition mentions_first_vowel :: "string \<Rightarrow> bool" where
  "mentions_first_vowel t \<longleftrightarrow> sublist ''first vowel'' t"

section \<open>Properties of the filter evaluation\<close>

text \<open>
  Claim C1. For every property record and every filter set, the check of one row in
  \<open>list_strings\<close> lets the row through if and only if every filter that is present holds:
  \<open>is_palindrome\<close> equals the record's flag, \<open>min_length\<close> is at most the record's length,
  \<open>max_length\<close> is at least the record's length, \<open>word_count\<close> equals the record's word
  count, and the character of \<open>contains_character\<close> has a count greater than 0 in the
  record's frequency map, a key that is absent counting as 0. A filter set with no field
  present lets every record through, and the rows that \<open>list_strings\<close> returns are those
  that pass the check.
\<close>

theorem row_ok_iff_present_filters_hold:
  "(row_ok flt props \<longleftrightarrow>
     (\<forall>b. is_palindrome flt = Some b \<longrightarrow> is_palindrome_prop props = b) \<and>
     (\<forall>n. min_length flt = Some n \<longrightarrow> n \<le> length_prop props) \<and>
     (\<forall>n. max_length flt = Some n \<longrightarrow> length_prop props \<le> n) \<and>
     (\<forall>n. word_count flt = Some n \<longrightarrow> word_count_prop props = n) \<and>
     (\<forall>c. contains_character flt = Some c \<longrightarrow>
          0 < (case character_frequency_map props c of None \<Rightarrow> 0 | Some k \<Rightarrow> k))) \<and>
   row_ok no_filters props \<and>
   (\<forall>res. list_strings flt rows = Inr res \<longrightarrow>
      data res = filter (\<lambda>r. row_ok flt (entry_properties r)) rows)"
proof -
  have "row_ok flt props \<longleftrightarrow>
     (\<forall>b. is_palindrome flt = Some b \<longrightarrow> is_palindrome_prop props = b) \<and>
     (\<forall>n. min_length flt = Some n \<longrightarrow> n \<le> length_prop props) \<and>
     (\<forall>n. max_length flt = Some n \<longrightarrow> length_prop props \<le> n) \<and>
     (\<forall>n. word_count flt = Some n \<longrightarrow> word_count_prop props = n) \<and>
     (\<forall>c. contains_character flt = Some c \<longrightarrow>
          0 < (case character_frequency_map props c of None \<Rightarrow> 0 | Some k \<Rightarrow> k))"
    unfolding row_ok_def Let_def get_count_def
    by (cases "is_palindrome flt"; cases "min_length flt"; cases "max_length flt";
        cases "word_count flt"; cases "contains_character flt") auto
  moreover have "row_ok no_filters props"
    by (simp add: row_ok_def no_filters_def)
  moreover have "\<forall>res. list_strings flt rows = Inr res \<longrightarrow>
      data res = filter (\<lambda>r. row_ok flt (entry_properties r)) rows"
    by (auto simp: list_strings_def Let_def split: option.splits if_splits)
  ultimately show ?thesis by blast
qed

theorem row_ok_iff_present_filters_hold_witness:
  "row_ok (no_filters\<lparr>is_palindrome := Some True, min_length := Some 3\<rparr>)
          (compute_properties (\<lambda>v. []) ''level'') \<and>
   \<not> row_ok (no_filters\<lparr>contains_character := Some CHR ''z''\<rparr>)
            (compute_properties (\<lambda>v. []) ''hello'')"
  using row_ok_iff_present_filters_hold
    [of "no_filters\<lparr>is_palindrome := Some True, min_length := Some 3\<rparr>"
        "compute_properties (\<lambda>v. []) ''level''" "[]"]
    row_ok_iff_present_filters_hold
    [of "no_filters\<lparr>contains_character := Some CHR ''z''\<rparr>"
        "compute_properties (\<lambda>v. []) ''hello''" "[]"]
  by (simp add: no_filters_def compute_properties_def lower_def lower_char_def
      count_characters_def get_count_def)

section \<open>Properties of the conflict check\<close>

text \<open>
  Claim C3. Whenever \<open>min_length\<close> and \<open>max_length\<close> are both present with
  \<open>min_length > max_length\<close>, the construction fails with the conflict error and no row is
  evaluated: \<open>list_strings\<close> (the structured input) raises its status 400 error whatever the
  rows are, and the check at the end of \<open>parse_nl_query\<close> (the natural-language
  translation) raises the \<open>ValueError\<close> of conflicting filters on such a dictionary. The
  filter \<open>{min_length: 10, max_length: 5}\<close> is evaluated below as an instance.
\<close>

theorem min_above_max_is_conflict:
  assumes "min_length flt = Some lo" and "max_length flt = Some hi" and "hi < lo"
  shows "list_strings flt rows =
           Inl (HTTPException 400 ''min_length cannot be greater than max_length'') \<and>
         check_parsed flt =
           Inl (ValueError ''Query parsed but resulted in conflicting filters'')"
  using assms by (simp add: list_strings_def check_parsed_def)

theorem min_above_max_is_conflict_witness:
  "list_strings (no_filters\<lparr>min_length := Some 10, max_length := Some 5\<rparr>) [] =
     Inl (HTTPException 400 ''min_length cannot be greater than max_length'') \<and>
   check_parsed (no_filters\<lparr>min_length := Some 10, max_length := Some 5\<rparr>) =
     Inl (ValueError ''Query parsed but resulted in conflicting filters'')"
  using min_above_max_is_conflict
    [of "no_filters\<lparr>min_length := Some 10, max_length := Some 5\<rparr>" 10 5 "[]"]
  by simp

section \<open>Properties of compute_properties\<close>

lemma lower_char_idem: "lower_char (lower_char c) = lower_char c"
  by (auto simp: lower_char_def Let_def)

lemma lower_idem: "lower (lower s) = lower s"
  by (simp add: lower_def lower_char_idem)

lemma dom_foldl_count:
  "dom (foldl (\<lambda>freq ch. freq(ch \<mapsto> get_count freq ch + 1)) m v) = dom m \<union> set v"
  by (induction v arbitrary: m) auto

lemma dom_count_characters: "dom (count_characters v) = set v"
  unfolding count_characters_def dom_foldl_count by simp

lemma mirror_iff:
  "xs = rev xs \<longleftrightarrow> (\<forall>i<length xs. xs ! i = xs ! (length xs - 1 - i))"
  by (auto simp: list_eq_iff_nth_eq rev_nth)

text \<open>
  Claim C4. For every string \<open>s\<close>, \<open>is_palindrome\<close> of the computed properties is true
  if and only if the lower-cased \<open>s\<close> equals its own reverse, that is, each character
  and its mirror image are equal up to case. The comparison ignores case
  (the flag of \<open>s\<close> is the flag of its lower-cased form) and strips nothing: \<open>"A"\<close> is a
  palindrome and \<open>"race a car"\<close> is not.
\<close>

theorem is_palindrome_iff_lower_mirror:
  "(is_palindrome_prop (compute_properties H s) \<longleftrightarrow> lower s = rev (lower s)) \<and>
   (is_palindrome_prop (compute_properties H s) \<longleftrightarrow>
      (\<forall>i<length s. lower_char (s ! i) = lower_char (s ! (length s - 1 - i)))) \<and>
   is_palindrome_prop (compute_properties H (lower s)) =
     is_palindrome_prop (compute_properties H s) \<and>
   is_palindrome_prop (compute_properties H ''A'') \<and>
   \<not> is_palindrome_prop (compute_properties H ''race a car'')"
proof -
  have "lower s = rev (lower s) \<longleftrightarrow>
        (\<forall>i<length s. lower_char (s ! i) = lower_char (s ! (length s - 1 - i)))"
    using mirror_iff [of "lower s"] by (simp add: lower_def)
  moreover have "is_palindrome_prop (compute_properties H ''A'')"
    by (simp add: compute_properties_def lower_def)
  moreover have "\<not> is_palindrome_prop (compute_properties H ''race a car'')"
    by (simp add: compute_properties_def lower_def lower_char_def)
  ultimately show ?thesis
    by (simp add: compute_properties_def lower_idem)
qed

theorem is_palindrome_iff_lower_mirror_witness:
  "is_palindrome_prop (compute_properties (\<lambda>v. []) ''Level'') \<and>
   lower_char CHR ''L'' = lower_char CHR ''l''"
proof -
  have l: "lower ''Level'' = ''level''" by code_simp
  have p: "is_palindrome_prop (compute_properties (\<lambda>v. []) ''Level'')"
    using is_palindrome_iff_lower_mirror [of "\<lambda>v. []" "''Level''"] unfolding l by simp
  then have "\<forall>i<length ''Level''.
      lower_char (''Level'' ! i) = lower_char (''Level'' ! (length ''Level'' - 1 - i))"
    using is_palindrome_iff_lower_mirror [of "\<lambda>v. []" "''Level''"] by blast
  then have "lower_char (''Level'' ! 0) = lower_char (''Level'' ! (length ''Level'' - 1 - 0))"
    by (rule allE [of _ 0]) simp
  then show ?thesis using p by simp
qed

text \<open>
  Claim C9. For every string \<open>s\<close>, \<open>unique_characters\<close> is the size of the set of the
  characters that occur in \<open>s\<close>, each character counted as it stands (no case folding,
  white space and punctuation included); it is also the number of keys of the frequency
  map. \<open>"Aa"\<close> has 2 unique characters.
\<close>

theorem unique_characters_is_card_of_set:
  "unique_characters (compute_properties H s) = card (set s) \<and>
   unique_characters (compute_properties H s) = length (remdups s) \<and>
   unique_characters (compute_properties H s) =
     card (dom (character_frequency_map (compute_properties H s))) \<and>
   unique_characters (compute_properties H ''Aa'') = 2"
  by (simp add: compute_properties_def dom_count_characters card_set)

lemma split_all_space: "\<forall>c\<in>set ws. isspace c \<Longrightarrow> split ws = []"
  by (induction ws) auto

lemma split_dropWhile_space: "split (dropWhile isspace s) = split s"
  by (induction s) auto

lemma split_append_space:
  "\<forall>c\<in>set ws. isspace c \<Longrightarrow> split (u @ ws) = split u"
proof (induction u rule: split.induct)
  case 1
  then show ?case by (simp add: split_all_space)
next
  case (2 c cs)
  show ?case
  proof (cases "isspace c")
    case True
    then show ?thesis using 2 by simp
  next
    case False
    show ?thesis
    proof (cases "\<forall>x\<in>set cs. \<not> isspace x")
      case True
      have tw: "takeWhile (\<lambda>x. \<not> isspace x) ws = []"
        using 2(3) by (cases ws) auto
      have dw: "dropWhile (\<lambda>x. \<not> isspace x) ws = ws"
        using 2(3) by (cases ws) auto
      have tc: "takeWhile (\<lambda>x. \<not> isspace x) cs = cs"
        and dc: "dropWhile (\<lambda>x. \<not> isspace x) cs = []"
        using True by simp_all
      have "split ((c # cs) @ ws) = [c # cs]"
        using False True 2(3)
        by (simp add: takeWhile_append2 dropWhile_append2 tw dw split_all_space)
      moreover have "split (c # cs) = [c # cs]"
        using False by (simp add: tc dc)
      ultimately show ?thesis by simp
    next
      case has: False
      then obtain x where "x \<in> set cs" "isspace x" by blast
      then have "takeWhile (\<lambda>x. \<not> isspace x) (cs @ ws) = takeWhile (\<lambda>x. \<not> isspace x) cs"
        and "dropWhile (\<lambda>x. \<not> isspace x) (cs @ ws) = dropWhile (\<lambda>x. \<not> isspace x) cs @ ws"
        by (auto simp: takeWhile_append1 dropWhile_append1)
      then show ?thesis using False 2 by simp
    qed
  qed
qed

lemma split_strip: "split (strip s) = split s"
proof -
  let ?u = "dropWhile isspace s"
  have "?u = rev (dropWhile isspace (rev ?u)) @ rev (takeWhile isspace (rev ?u))"
    by (metis rev_append rev_rev_ident takeWhile_dropWhile_id)
  moreover have "\<forall>c\<in>set (rev (takeWhile isspace (rev ?u))). isspace c"
    by (auto dest: set_takeWhileD)
  ultimately have "split ?u = split (rev (dropWhile isspace (rev ?u)))"
    using split_append_space by metis
  then show ?thesis by (simp add: strip_def split_dropWhile_space)
qed

lemma split_filter_runs: "split s = filter (\<lambda>t. t \<noteq> []) (split_on_whitespace_runs s)"
proof (induction s rule: split_on_whitespace_runs.induct)
  case (1 s)
  show ?case
  proof (cases "dropWhile (\<lambda>x. \<not> isspace x) s = []")
    case True
    then have all: "\<forall>x\<in>set s. \<not> isspace x" by (simp add: dropWhile_eq_Nil_conv)
    have "split s = (if s = [] then [] else [s])"
    proof (cases s)
      case Nil then show ?thesis by simp
    next
      case (Cons c cs)
      then show ?thesis using all by (simp add: takeWhile_eq_all_conv [THEN iffD2] dropWhile_eq_Nil_conv [THEN iffD2])
    qed
    then show ?thesis using True by (simp add: split_on_whitespace_runs.simps [of s])
  next
    case False
    let ?rest = "dropWhile (\<lambda>x. \<not> isspace x) s"
    have IH: "split (dropWhile isspace ?rest) =
              filter (\<lambda>t. t \<noteq> []) (split_on_whitespace_runs (dropWhile isspace ?rest))"
      using 1 False by simp
    have "split s = (if takeWhile (\<lambda>x. \<not> isspace x) s = [] then split ?rest
                     else takeWhile (\<lambda>x. \<not> isspace x) s # split ?rest)"
    proof (cases s)
      case Nil then show ?thesis by simp
    next
      case (Cons c cs)
      then show ?thesis by (cases "isspace c") (auto simp: split_dropWhile_space)
    qed
    moreover have "split_on_whitespace_runs s =
        takeWhile (\<lambda>x. \<not> isspace x) s # split_on_whitespace_runs (dropWhile isspace ?rest)"
      by (subst split_on_whitespace_runs.simps) (simp only: False if_False)
    moreover have "split ?rest = split (dropWhile isspace ?rest)"
      by (simp only: split_dropWhile_space)
    ultimately show ?thesis
      using IH by simp
  qed
qed


lemma runs_nonempty:
  "s \<noteq> [] \<Longrightarrow> \<not> isspace (hd s) \<Longrightarrow> \<not> isspace (last s) \<Longrightarrow>
   [] \<notin> set (split_on_whitespace_runs s)"
proof (induction s rule: split_on_whitespace_runs.induct)
  case (1 s)
  let ?rest = "dropWhile (\<lambda>x. \<not> isspace x) s"
  have tok: "takeWhile (\<lambda>x. \<not> isspace x) s \<noteq> []"
    using 1(2,3) by (cases s) auto
  show ?case
  proof (cases "?rest = []")
    case True
    then have "split_on_whitespace_runs s = [s]"
      by (subst split_on_whitespace_runs.simps) simp
    then show ?thesis using 1(2) by simp
  next
    case False
    have runs: "split_on_whitespace_runs s =
        takeWhile (\<lambda>x. \<not> isspace x) s # split_on_whitespace_runs (dropWhile isspace ?rest)"
      by (subst split_on_whitespace_runs.simps) (simp only: False if_False)
    have last_rest: "last ?rest = last s"
      using False by (metis last_appendR takeWhile_dropWhile_id)
    have ne: "dropWhile isspace ?rest \<noteq> []"
      using False 1(4) last_rest by (metis dropWhile_eq_Nil_conv last_in_set)
    have hd: "\<not> isspace (hd (dropWhile isspace ?rest))"
      using ne hd_dropWhile by metis
    have "last (dropWhile isspace ?rest) = last ?rest"
      using ne by (metis last_appendR takeWhile_dropWhile_id)
    then have la: "\<not> isspace (last (dropWhile isspace ?rest))"
      using 1(4) last_rest by simp
    have "[] \<notin> set (split_on_whitespace_runs (dropWhile isspace ?rest))"
      using 1(1) [OF False ne hd la] .
    then show ?thesis using runs tok by simp
  qed
qed

lemma strip_Nil_iff: "strip s = [] \<longleftrightarrow> (\<forall>c\<in>set s. isspace c)"
proof
  assume "strip s = []"
  then have all: "\<forall>c\<in>set (dropWhile isspace s). isspace c"
    by (simp add: strip_def)
  have "dropWhile isspace s = []"
  proof (rule ccontr)
    assume ne: "dropWhile isspace s \<noteq> []"
    then have "\<not> isspace (hd (dropWhile isspace s))"
      using hd_dropWhile by metis
    moreover have "hd (dropWhile isspace s) \<in> set (dropWhile isspace s)"
      using ne by simp
    ultimately show False using all by blast
  qed
  then show "\<forall>c\<in>set s. isspace c" by simp
next
  assume "\<forall>c\<in>set s. isspace c"
  then have "dropWhile isspace s = []" by simp
  then show "strip s = []" unfolding strip_def by (simp only: rev.simps dropWhile.simps)
qed

lemma strip_ends:
  assumes "strip s \<noteq> []"
  shows "\<not> isspace (hd (strip s))" and "\<not> isspace (last (strip s))"
proof -
  let ?u = "dropWhile isspace s"
  have u: "?u \<noteq> []"
  proof
    assume e: "?u = []"
    have "strip s = []" unfolding strip_def e by simp
    with assms show False by simp
  qed
  have r: "dropWhile isspace (rev ?u) \<noteq> []" using assms by (simp add: strip_def)
  have "\<not> isspace (hd (dropWhile isspace (rev ?u)))"
    using r hd_dropWhile by metis
  then show "\<not> isspace (last (strip s))"
    using r by (simp add: strip_def last_rev)
  have "\<not> isspace (hd ?u)" using u hd_dropWhile by metis
  moreover have "hd (strip s) = hd ?u"
  proof -
    have "?u = strip s @ rev (takeWhile isspace (rev ?u))"
      unfolding strip_def by (metis rev_append rev_rev_ident takeWhile_dropWhile_id)
    then show ?thesis using assms by (metis hd_append2)
  qed
  ultimately show "\<not> isspace (hd (strip s))" by simp
qed

text \<open>
  Claim C5. For every string \<open>s\<close>, \<open>word_count\<close> is 0 when the trimmed \<open>s\<close> is empty
  (which is the case exactly when \<open>s\<close> is empty or all white space), and otherwise it is
  the number of tokens of the trimmed \<open>s\<close> split on runs of white space; this is also the
  number of non-empty tokens of \<open>s\<close> itself split on runs of white space.
\<close>

theorem word_count_is_number_of_tokens:
  "word_count_prop (compute_properties H s) =
     (if strip s = [] then 0 else length (split_on_whitespace_runs (strip s))) \<and>
   word_count_prop (compute_properties H s) =
     length (filter (\<lambda>t. t \<noteq> []) (split_on_whitespace_runs s)) \<and>
   (strip s = [] \<longleftrightarrow> (\<forall>c\<in>set s. isspace c)) \<and>
   word_count_prop (compute_properties H []) = 0 \<and>
   word_count_prop (compute_properties H ''race a car'') = 3"
proof -
  have a: "length (split s) = length (split_on_whitespace_runs (strip s))" if "strip s \<noteq> []"
  proof -
    have "[] \<notin> set (split_on_whitespace_runs (strip s))"
      using runs_nonempty [OF that] strip_ends [OF that] by blast
    then have "filter (\<lambda>t. t \<noteq> []) (split_on_whitespace_runs (strip s)) =
               split_on_whitespace_runs (strip s)"
      by (auto simp: filter_id_conv)
    then show ?thesis
      using split_filter_runs [of "strip s"] by (simp add: split_strip)
  qed
  have b: "split s = []" if "strip s = []"
    using that by (simp add: strip_Nil_iff split_all_space)
  have c: "word_count_prop (compute_properties H ''race a car'') = 3"
    by (simp add: compute_properties_def strip_def isspace_def)
  show ?thesis
    using a b c split_filter_runs [of s]
    by (auto simp: compute_properties_def strip_Nil_iff)
qed

theorem word_count_is_number_of_tokens_witness:
  "strip [CHR '' '', CHR 0x09] = [] \<and>
   word_count_prop (compute_properties (\<lambda>v. []) [CHR '' '', CHR 0x09]) = 0 \<and>
   length (split_on_whitespace_runs (strip '' two  words '')) = 2 \<and>
   word_count_prop (compute_properties (\<lambda>v. []) '' two  words '') = 2"
  using word_count_is_number_of_tokens [of "\<lambda>v. []" "[CHR '' '', CHR 0x09]"]
    word_count_is_number_of_tokens [of "\<lambda>v. []" "'' two  words ''"]
  by (simp add: isspace_def strip_def split_on_whitespace_runs.simps)

section \<open>Properties of parse_nl_query\<close>

subsection \<open>The searches find what the rules describe\<close>

lemma re_search_None_iff:
  "re_search m s = None \<longleftrightarrow> (\<forall>t. suffix t s \<longrightarrow> m t = None)"
  by (induction s) (auto simp: suffix_Cons split: option.splits)

lemma re_search_matches_iff:
  "re_search m s \<noteq> None \<longleftrightarrow> (\<exists>t. suffix t s \<and> m t \<noteq> None)"
  by (simp add: re_search_None_iff)

lemma in_set_lit: "r \<in> set (lit p s) \<longleftrightarrow> s = p @ r"
  by (auto simp: lit_def prefix_def)

lemma first_match_iff:
  "(case xs of [] \<Rightarrow> None | g # gs \<Rightarrow> Some (f g)) \<noteq> None \<longleftrightarrow> (\<exists>x. x \<in> set xs)"
  by (cases xs) auto

lemma match_single_one_word_iff:
  "match_single_one_word s \<noteq> None \<longleftrightarrow> prefix ''single word'' s \<or> prefix ''one word'' s"
  unfolding match_single_one_word_def first_match_iff [where f = "\<lambda>_. ()"]
  by (auto simp: in_set_lit prefix_def)

lemma match_first_vowel_iff: "match_first_vowel s \<noteq> None \<longleftrightarrow> prefix ''first vowel'' s"
  unfolding match_first_vowel_def first_match_iff [where f = "\<lambda>_. ()"]
  by (auto simp: in_set_lit prefix_def)

lemma search_single_one_word:
  "re_search match_single_one_word t \<noteq> None \<longleftrightarrow> mentions_single_word t"
  unfolding re_search_matches_iff match_single_one_word_iff mentions_single_word_def
    sublist_altdef' by blast

lemma search_first_vowel:
  "re_search match_first_vowel t \<noteq> None \<longleftrightarrow> mentions_first_vowel t"
  unfolding re_search_matches_iff match_first_vowel_iff mentions_first_vowel_def
    sublist_altdef' by blast

lemma takeWhile_eq_Nil_iff': "takeWhile P r = [] \<longleftrightarrow> r = [] \<or> \<not> P (hd r)"
  by (cases r) auto

lemma lit_digits_iff:
  "(\<exists>g. g \<in> set [takeWhile P r1. r1 \<leftarrow> lit p s, takeWhile P r1 \<noteq> []]) \<longleftrightarrow>
   (\<exists>d r. P d \<and> s = p @ d # r)"
proof -
  have "(\<exists>g. g \<in> set [takeWhile P r1. r1 \<leftarrow> lit p s, takeWhile P r1 \<noteq> []]) \<longleftrightarrow>
        (\<exists>r1. s = p @ r1 \<and> takeWhile P r1 \<noteq> [])"
    by (auto simp: Bex_def in_set_lit)
  also have "\<dots> \<longleftrightarrow> (\<exists>d r. P d \<and> s = p @ d # r)"
    by (auto simp: takeWhile_eq_Nil_iff' neq_Nil_conv)
  finally show ?thesis .
qed

lemma match_longer_than_iff:
  "match_longer_than s \<noteq> None \<longleftrightarrow> (\<exists>d. isdigit d \<and> prefix (''longer than '' @ [d]) s)"
  unfolding match_longer_than_def first_match_iff [where f = "\<lambda>g. g"] lit_digits_iff
  by (auto simp: prefix_def)

lemma search_longer_than:
  "re_search match_longer_than t \<noteq> None \<longleftrightarrow> mentions_longer_than t"
  unfolding re_search_matches_iff match_longer_than_iff mentions_longer_than_def
    sublist_altdef' by blast


lemma match_contains_letter_phrase:
  assumes "is_a_to_z x" and "p \<in> set letter_phrases"
  shows "match_contains_letter (p @ x # rest) = Some x"
proof -
  have "match_contains_letter (''containing the letter '' @ x # rest) = Some x"
    using assms(1) by (simp add: match_contains_letter_def lit_def)
  moreover have "match_contains_letter (''containing letter '' @ x # rest) = Some x"
    using assms(1) by (simp add: match_contains_letter_def lit_def)
  moreover have "match_contains_letter (''contains the letter '' @ x # rest) = Some x"
    using assms(1) by (simp add: match_contains_letter_def lit_def)
  moreover have "match_contains_letter (''contains letter '' @ x # rest) = Some x"
    using assms(1) by (simp add: match_contains_letter_def lit_def)
  moreover have "match_contains_letter (''contain the letter '' @ x # rest) = Some x"
    using assms(1) by (simp add: match_contains_letter_def lit_def)
  moreover have "match_contains_letter (''contain letter '' @ x # rest) = Some x"
    using assms(1) by (simp add: match_contains_letter_def lit_def)
  ultimately show ?thesis
    using assms(2) unfolding letter_phrases_def by auto
qed


lemma letter_candidates:
  assumes "x \<in> set [x. r1 \<leftarrow> lit ''contain'' s,
               r2 \<leftarrow> lit ''ing'' r1 @ lit ''s'' r1 @ [r1],
               r3 \<leftarrow> lit '' '' r2,
               r4 \<leftarrow> lit ''the '' r3 @ [r3],
               r5 \<leftarrow> lit ''letter '' r4,
               x \<leftarrow> take 1 r5, is_a_to_z x]"
  shows "is_a_to_z x \<and> (\<exists>p\<in>set letter_phrases. \<exists>rest. s = p @ x # rest)"
proof -
  from assms obtain r1 r2 r3 r4 r5 where
    r1: "r1 \<in> set (lit ''contain'' s)" and
    r2: "r2 \<in> set (lit ''ing'' r1) \<or> r2 \<in> set (lit ''s'' r1) \<or> r2 = r1" and
    r3: "r3 \<in> set (lit '' '' r2)" and
    r4: "r4 \<in> set (lit ''the '' r3) \<or> r4 = r3" and
    r5: "r5 \<in> set (lit ''letter '' r4)" and
    x: "x \<in> set (take 1 r5)" "is_a_to_z x"
    by fastforce
  from x obtain rest where rest: "r5 = x # rest" by (cases r5) auto
  have s: "s = ''contain'' @ r1" and "r2 = '' '' @ r3" and "r4 = ''letter '' @ x # rest"
    using r1 r3 r5 rest by (simp_all only: in_set_lit)
  moreover have "r1 = ''ing'' @ r2 \<or> r1 = ''s'' @ r2 \<or> r1 = r2"
    using r2 by (auto simp only: in_set_lit)
  moreover have "r3 = ''the '' @ r4 \<or> r3 = r4"
    using r4 by (auto simp only: in_set_lit)
  ultimately have "\<exists>p\<in>set letter_phrases. s = p @ x # rest"
    unfolding letter_phrases_def by auto
  then show ?thesis using x(2) by blast
qed


lemma match_contains_letter_iff:
  "match_contains_letter s \<noteq> None \<longleftrightarrow>
     (\<exists>x p. is_a_to_z x \<and> p \<in> set letter_phrases \<and> prefix (p @ [x]) s)"
proof
  assume "match_contains_letter s \<noteq> None"
  then obtain x where "x \<in> set [x. r1 \<leftarrow> lit ''contain'' s,
               r2 \<leftarrow> lit ''ing'' r1 @ lit ''s'' r1 @ [r1],
               r3 \<leftarrow> lit '' '' r2,
               r4 \<leftarrow> lit ''the '' r3 @ [r3],
               r5 \<leftarrow> lit ''letter '' r4,
               x \<leftarrow> take 1 r5, is_a_to_z x]"
    unfolding match_contains_letter_def first_match_iff [where f = "\<lambda>g. g"] by blast
  from letter_candidates [OF this]
  show "\<exists>x p. is_a_to_z x \<and> p \<in> set letter_phrases \<and> prefix (p @ [x]) s"
    unfolding prefix_def by (metis append.assoc append_Cons append_Nil)
next
  assume "\<exists>x p. is_a_to_z x \<and> p \<in> set letter_phrases \<and> prefix (p @ [x]) s"
  then obtain x p rest where "is_a_to_z x" "p \<in> set letter_phrases" "s = (p @ [x]) @ rest"
    by (auto simp: prefix_def)
  then show "match_contains_letter s \<noteq> None"
    using match_contains_letter_phrase [of x p rest] by simp
qed

lemma search_contains_letter:
  "re_search match_contains_letter t \<noteq> None \<longleftrightarrow> mentions_letter t"
  unfolding re_search_matches_iff match_contains_letter_iff mentions_letter_def
    sublist_altdef' by blast

subsection \<open>The number behind longer than\<close>

lemma re_search_at_match: "m suf = Some g \<Longrightarrow> re_search m suf = Some g"
  by (cases suf) auto

lemma re_search_leftmost:
  assumes "m suf = Some g" and "\<forall>k<length pre. m (drop k (pre @ suf)) = None"
  shows "re_search m (pre @ suf) = Some g"
  using assms
proof (induction pre)
  case Nil
  then show ?case by (simp add: re_search_at_match)
next
  case (Cons a pre)
  have "m (a # pre @ suf) = None"
    using Cons.prems(2) by (metis append_Cons drop0 length_greater_0_conv list.distinct(1))
  moreover have "\<forall>k<length pre. m (drop k (pre @ suf)) = None"
  proof (intro allI impI)
    fix k assume "k < length pre"
    then have "m (drop (Suc k) ((a # pre) @ suf)) = None"
      using Cons.prems(2) by (metis Suc_less_eq length_Cons)
    then show "m (drop k (pre @ suf)) = None" by simp
  qed
  ultimately show ?case using Cons.IH [OF Cons.prems(1)] by simp
qed

lemma re_search_SomeD:
  "re_search m s = Some g \<Longrightarrow>
   \<exists>pre suf. s = pre @ suf \<and> m suf = Some g \<and> (\<forall>k<length pre. m (drop k s) = None)"
proof (induction s)
  case Nil
  then show ?case by simp
next
  case (Cons c cs)
  show ?case
  proof (cases "m (c # cs)")
    case (Some g')
    then have "m (c # cs) = Some g" using Cons.prems by simp
    then have "c # cs = [] @ (c # cs) \<and> m (c # cs) = Some g \<and>
               (\<forall>k<length ([] :: string). m (drop k (c # cs)) = None)"
      by simp
    then show ?thesis by blast
  next
    case None
    then have "re_search m cs = Some g" using Cons.prems by simp
    from Cons.IH [OF this] obtain pre suf where
      ps: "cs = pre @ suf" "m suf = Some g" "\<forall>k<length pre. m (drop k cs) = None"
      by blast
    have "\<forall>k<length (c # pre). m (drop k (c # cs)) = None"
    proof (intro allI impI)
      fix k assume k: "k < length (c # pre)"
      show "m (drop k (c # cs)) = None"
      proof (cases k)
        case 0
        then show ?thesis using None by simp
      next
        case (Suc j)
        then show ?thesis using k ps(3) by simp
      qed
    qed
    then have "c # cs = (c # pre) @ suf \<and> m suf = Some g \<and>
               (\<forall>k<length (c # pre). m (drop k (c # cs)) = None)"
      using ps by simp
    then show ?thesis by blast
  qed
qed

lemma match_longer_than_digits:
  assumes "ds \<noteq> []" and "\<forall>c\<in>set ds. isdigit c" and "post = [] \<or> \<not> isdigit (hd post)"
  shows "match_longer_than (''longer than '' @ ds @ post) = Some ds"
proof -
  have "takeWhile isdigit post = []"
    using assms(3) by (cases post) auto
  then have "takeWhile isdigit (ds @ post) = ds"
    using assms(2) by (simp add: takeWhile_append2)
  moreover have "lit ''longer than '' (''longer than '' @ ds @ post) = [ds @ post]"
    unfolding lit_def by (simp only: prefixI [OF refl] if_True append_eq_conv_conj) simp
  ultimately show ?thesis
    using assms(1) unfolding match_longer_than_def by simp
qed

lemma match_longer_than_SomeD:
  assumes "match_longer_than suf = Some ds"
  shows "\<exists>post. suf = ''longer than '' @ ds @ post \<and> ds \<noteq> [] \<and> (\<forall>c\<in>set ds. isdigit c) \<and>
           (post = [] \<or> \<not> isdigit (hd post))"
proof -
  have "ds \<in> set [takeWhile isdigit r1. r1 \<leftarrow> lit ''longer than '' suf, takeWhile isdigit r1 \<noteq> []]"
    using assms unfolding match_longer_than_def
    by (cases "[takeWhile isdigit r1. r1 \<leftarrow> lit ''longer than '' suf, takeWhile isdigit r1 \<noteq> []]")
       (simp_all only: list.case option.distinct option.inject list.set_intros)
  then obtain r1 where r1: "r1 \<in> set (lit ''longer than '' suf)"
      and ds: "ds = takeWhile isdigit r1" "takeWhile isdigit r1 \<noteq> []"
    by auto
  have suf: "suf = ''longer than '' @ r1"
    using r1 by (simp only: in_set_lit)
  have "r1 = ds @ dropWhile isdigit r1"
    using ds(1) by simp
  moreover have "dropWhile isdigit r1 = [] \<or> \<not> isdigit (hd (dropWhile isdigit r1))"
    using hd_dropWhile [of isdigit r1] by blast
  moreover have "\<forall>c\<in>set ds. isdigit c"
    using ds(1) by (auto dest: set_takeWhileD)
  ultimately show ?thesis
    using suf ds by (metis append_assoc)
qed

lemma search_longer_than_Some:
  "re_search match_longer_than t = Some ds \<longleftrightarrow> leftmost_longer_than t ds"
proof
  assume "re_search match_longer_than t = Some ds"
  from re_search_SomeD [OF this] obtain pre suf where
    t: "t = pre @ suf" and m: "match_longer_than suf = Some ds"
    and none: "\<forall>k<length pre. match_longer_than (drop k t) = None"
    by blast
  from match_longer_than_SomeD [OF m] obtain post where
    post: "suf = ''longer than '' @ ds @ post" "ds \<noteq> []" "\<forall>c\<in>set ds. isdigit c"
      "post = [] \<or> \<not> isdigit (hd post)"
    by blast
  have "length pre \<le> length pre'"
    if "t = pre' @ ''longer than '' @ d # rest" and "isdigit d" for pre' d rest
  proof (rule ccontr)
    assume "\<not> length pre \<le> length pre'"
    then have "match_longer_than (drop (length pre') t) = None"
      using none by simp
    moreover have "drop (length pre') t = ''longer than '' @ d # rest"
      using that(1) by simp
    moreover have "match_longer_than (''longer than '' @ d # rest) \<noteq> None"
      unfolding match_longer_than_iff using that(2) by (auto simp: prefix_def)
    ultimately show False by simp
  qed
  then show "leftmost_longer_than t ds"
    unfolding leftmost_longer_than_def using t post by blast
next
  assume "leftmost_longer_than t ds"
  then obtain pre post where
    t: "t = pre @ ''longer than '' @ ds @ post" and ds: "ds \<noteq> []" "\<forall>c\<in>set ds. isdigit c"
    and post: "post = [] \<or> \<not> isdigit (hd post)"
    and first: "\<forall>pre' d rest. t = pre' @ ''longer than '' @ d # rest \<and> isdigit d
                  \<longrightarrow> length pre \<le> length pre'"
    unfolding leftmost_longer_than_def by blast
  have m: "match_longer_than (''longer than '' @ ds @ post) = Some ds"
    using ds post by (rule match_longer_than_digits)
  have none: "\<forall>k<length pre. match_longer_than (drop k (pre @ ''longer than '' @ ds @ post)) = None"
  proof (intro allI impI, rule ccontr)
    fix k assume k: "k < length pre"
    assume "match_longer_than (drop k (pre @ ''longer than '' @ ds @ post)) \<noteq> None"
    then obtain d where d: "isdigit d"
        and "prefix (''longer than '' @ [d]) (drop k t)"
      unfolding match_longer_than_iff t by blast
    then obtain rest where "drop k t = (''longer than '' @ [d]) @ rest"
      unfolding prefix_def by blast
    then have "t = take k t @ ''longer than '' @ d # rest"
      by (metis append.assoc append_Cons append_Nil append_take_drop_id)
    then have "length pre \<le> length (take k t)"
      using first d by blast
    then show False using k by simp
  qed
  show "re_search match_longer_than t = Some ds"
    unfolding t using re_search_leftmost [OF m none] .
qed

lemma search_longer_than_None:
  "re_search match_longer_than t = None \<longleftrightarrow> \<not> mentions_longer_than t"
  using search_longer_than [of t] by blast

subsection \<open>The dictionary of the rules, key by key\<close>

lemma int_limit_message_distinct:
  "int_limit_message n \<noteq> ''Unable to parse natural language query''"
  "int_limit_message n \<noteq> ''Query parsed but resulted in conflicting filters''"
  by (simp_all add: int_limit_message_def)

lemma parse_rules_int_error:
  assumes "re_search match_longer_than t = Some g" and "int_max_str_digits < length g"
  shows "parse_rules t = Inl (ValueError (int_limit_message (length g)))"
  using assms by (simp add: parse_rules_def int_of_str_def Let_def)

lemma parse_rules_returns:
  assumes "\<forall>g. re_search match_longer_than t = Some g \<longrightarrow> length g \<le> int_max_str_digits"
  shows "\<exists>f. parse_rules t = Inr f"
  using assms
  by (cases "re_search match_longer_than t")
     (auto simp: parse_rules_def int_of_str_def Let_def)

lemma parse_rules_InlD:
  assumes "parse_rules t = Inl e"
  shows "\<exists>g. re_search match_longer_than t = Some g \<and> int_max_str_digits < length g \<and>
             e = ValueError (int_limit_message (length g))"
  using assms
  by (cases "re_search match_longer_than t")
     (auto simp: parse_rules_def int_of_str_def Let_def split: if_splits)

lemma parse_rules_fields:
  assumes "parse_rules t = Inr f"
  shows "word_count f = (if mentions_single_word t then Some 1 else None)"
    and "min_length f = map_option (\<lambda>g. decimal_value g + 1) (re_search match_longer_than t)"
    and "is_palindrome f = (if mentions_palindrome t then Some True else None)"
    and "contains_character f =
           (if mentions_first_vowel t then Some CHR ''a'' else re_search match_contains_letter t)"
    and "max_length f = None"
  using assms
  unfolding search_single_one_word [symmetric] search_first_vowel [symmetric]
    mentions_palindrome_def
  by (cases "re_search match_longer_than t";
      auto simp: parse_rules_def int_of_str_def Let_def no_filters_def
           split: if_splits option.splits)+

lemma parse_rules_min_length_leftmost:
  assumes "parse_rules t = Inr f" and "leftmost_longer_than t ds"
  shows "min_length f = Some (decimal_value ds + 1)"
  using assms parse_rules_fields(2) [OF assms(1)]
  by (simp add: search_longer_than_Some [symmetric])

lemma parse_rules_empty_iff:
  assumes "parse_rules t = Inr f"
  shows "f = no_filters \<longleftrightarrow>
     \<not> (mentions_single_word t \<or> mentions_longer_than t \<or> mentions_palindrome t \<or>
        mentions_letter t \<or> mentions_first_vowel t)"
proof -
  have "f = no_filters \<longleftrightarrow>
        is_palindrome f = None \<and> min_length f = None \<and>
        max_length f = None \<and> word_count f = None \<and> contains_character f = None"
    by (cases f) (auto simp: no_filters_def)
  then show ?thesis
    unfolding parse_rules_fields [OF assms]
      search_longer_than [symmetric] search_contains_letter [symmetric]
    by auto
qed

lemma parse_nl_query_of_rules:
  assumes "parse_rules (lower q) = Inr f"
  shows "parse_nl_query q =
     (if f = no_filters then Inl (ValueError ''Unable to parse natural language query'')
      else Inr f)"
proof -
  have "max_length f = None" using assms by (rule parse_rules_fields(5))
  then have "check_parsed f =
     (if f = no_filters then Inl (ValueError ''Unable to parse natural language query'')
      else Inr f)"
    unfolding check_parsed_def by (cases "min_length f") simp_all
  then show ?thesis using assms by (simp add: parse_nl_query_def)
qed

lemma parse_nl_query_of_error:
  "parse_rules (lower q) = Inl e \<Longrightarrow> parse_nl_query q = Inl e"
  by (simp add: parse_nl_query_def)

lemma number_within_limit:
  "(\<forall>ds. leftmost_longer_than t ds \<longrightarrow> length ds \<le> int_max_str_digits) \<longleftrightarrow>
   (\<forall>g. re_search match_longer_than t = Some g \<longrightarrow> length g \<le> int_max_str_digits)"
  by (simp add: search_longer_than_Some)

lemma parse_nl_query_number_too_long:
  assumes "leftmost_longer_than (lower q) ds" and "int_max_str_digits < length ds"
  shows "parse_nl_query q = Inl (ValueError (int_limit_message (length ds)))"
  using assms parse_rules_int_error [of "lower q" ds]
  by (simp add: search_longer_than_Some parse_nl_query_of_error)

lemmas eval_defs = parse_nl_query_def parse_rules_def check_parsed_def lower_def lower_char_def
        match_single_one_word_def match_longer_than_def match_contains_letter_def
        match_first_vowel_def lit_def no_filters_def sublist_Cons_right Let_def
        isdigit_def is_a_to_z_def int_of_str_def int_max_str_digits_def
        decimal_value_def digit_value_def

subsection \<open>Texts with a number of more than 4300 digits\<close>

lemma long_number_leftmost:
  assumes "0 < n" and "lower post = post" and "post = [] \<or> \<not> isdigit (hd post)"
  shows "leftmost_longer_than (lower (''longer than '' @ replicate n CHR ''1'' @ post))
           (replicate n CHR ''1'')"
proof -
  have l: "lower (''longer than '' @ replicate n CHR ''1'' @ post) =
           [] @ ''longer than '' @ replicate n CHR ''1'' @ post"
    using assms(2) by (simp add: lower_def lower_char_def)
  have "replicate n CHR ''1'' \<noteq> []" using assms(1) by simp
  moreover have "\<forall>c\<in>set (replicate n CHR ''1''). isdigit c"
    by (simp add: isdigit_def)
  ultimately show ?thesis
    unfolding leftmost_longer_than_def using l assms(3)
    by (metis le0 list.size(3))
qed

lemma long_number_raises:
  assumes "int_max_str_digits < n" and "lower post = post" and "post = [] \<or> \<not> isdigit (hd post)"
  shows "parse_nl_query (''longer than '' @ replicate n CHR ''1'' @ post) =
           Inl (ValueError (int_limit_message n))"
proof -
  have "0 < n" using assms(1) by simp
  from long_number_leftmost [OF this assms(2,3)]
  show ?thesis
    using parse_nl_query_number_too_long
      [of "''longer than '' @ replicate n CHR ''1'' @ post" "replicate n CHR ''1''"] assms(1)
    by simp
qed

lemma sublist_at_end: "sublist xs (p @ c # xs)"
proof -
  have "p @ c # xs = (p @ [c]) @ xs @ []" by simp
  then show ?thesis by (metis sublist_appendI)
qed

lemma long_number_alone:
  assumes "int_max_str_digits < n"
  shows "mentions_longer_than (lower (''longer than '' @ replicate n CHR ''1''))"
    and "parse_nl_query (''longer than '' @ replicate n CHR ''1'') =
           Inl (ValueError (int_limit_message n))"
proof -
  have n: "0 < n" using assms by simp
  have e: "''longer than '' @ replicate n CHR ''1'' @ [] = ''longer than '' @ replicate n CHR ''1''"
    by simp
  have "lower [] = []" by (simp add: lower_def)
  then have "leftmost_longer_than (lower (''longer than '' @ replicate n CHR ''1'' @ []))
      (replicate n CHR ''1'')"
    by (intro long_number_leftmost [OF n] disjI1 refl)
  then have "re_search match_longer_than (lower (''longer than '' @ replicate n CHR ''1'')) =
      Some (replicate n CHR ''1'')"
    unfolding e by (simp only: search_longer_than_Some)
  then have "re_search match_longer_than (lower (''longer than '' @ replicate n CHR ''1'')) \<noteq> None"
    by simp
  then show "mentions_longer_than (lower (''longer than '' @ replicate n CHR ''1''))"
    by (simp only: search_longer_than)
  have "parse_nl_query (''longer than '' @ replicate n CHR ''1'' @ []) =
           Inl (ValueError (int_limit_message n))"
    by (intro long_number_raises [OF assms] disjI1 refl) (simp add: lower_def)
  then show "parse_nl_query (''longer than '' @ replicate n CHR ''1'') =
           Inl (ValueError (int_limit_message n))"
    unfolding e .
qed

lemma long_number_before:
  assumes "int_max_str_digits < n" and "lower w = w"
  shows "sublist w (lower (''longer than '' @ replicate n CHR ''1'' @ CHR '' '' # w))"
    and "parse_nl_query (''longer than '' @ replicate n CHR ''1'' @ CHR '' '' # w) =
           Inl (ValueError (int_limit_message n))"
proof -
  have sp: "lower (CHR '' '' # w) = CHR '' '' # w"
    using assms(2) by (simp add: lower_def lower_char_def)
  have "lower (''longer than '' @ replicate n CHR ''1'' @ CHR '' '' # w) =
        (''longer than '' @ replicate n CHR ''1'') @ CHR '' '' # w"
    using assms(2) by (simp add: lower_def lower_char_def)
  then show "sublist w (lower (''longer than '' @ replicate n CHR ''1'' @ CHR '' '' # w))"
    by (simp only: sublist_at_end)
  show "parse_nl_query (''longer than '' @ replicate n CHR ''1'' @ CHR '' '' # w) =
           Inl (ValueError (int_limit_message n))"
    by (rule long_number_raises [OF assms(1) sp]) (simp add: isdigit_def)
qed

lemma no_number_within_limit:
  "re_search match_longer_than t = None \<Longrightarrow>
   \<forall>ds. leftmost_longer_than t ds \<longrightarrow> length ds \<le> int_max_str_digits"
  by (simp add: search_longer_than_Some [symmetric])

lemma returns_within_limit:
  assumes "\<forall>ds. leftmost_longer_than (lower q) ds \<longrightarrow> length ds \<le> int_max_str_digits"
  shows "\<exists>f. parse_rules (lower q) = Inr f"
  using assms parse_rules_returns [of "lower q"] by (simp add: search_longer_than_Some)

subsection \<open>The claims on the translator\<close>

text \<open>
  Claim C7, as the code has it. \<open>parse_nl_query\<close> raises the error of the unparsable
  query if and only if none of the five rules matched the lower-cased text, which is the
  case exactly when the dictionary of the rules is empty. When at least one rule matched
  and the number of rule 2, if rule 2 matched, has at most 4300 digits, it returns the
  dictionary accumulated by the rules: \<open>word_count\<close> is 1 when rule 1 matched,
  \<open>is_palindrome\<close> is true when rule 3 matched, \<open>min_length\<close> is present when rule 2
  matched and is then the number plus 1, \<open>contains_character\<close> is present when rule 4 or
  rule 5 matched, and \<open>max_length\<close> is absent. When the number has more than 4300 digits,
  the \<open>ValueError\<close> of \<open>int\<close> leaves the function and nothing is returned. The text
  \<open>xyz123\<close> raises the error of the unparsable query.
\<close>

theorem parse_error_iff_no_rule_matched:
  "(parse_nl_query q = Inl (ValueError ''Unable to parse natural language query'') \<longleftrightarrow>
      \<not> (mentions_single_word (lower q) \<or> mentions_longer_than (lower q) \<or>
         mentions_palindrome (lower q) \<or> mentions_letter (lower q) \<or>
         mentions_first_vowel (lower q))) \<and>
   (parse_nl_query q = Inl (ValueError ''Unable to parse natural language query'') \<longleftrightarrow>
      parse_rules (lower q) = Inr no_filters) \<and>
   ((mentions_single_word (lower q) \<or> mentions_longer_than (lower q) \<or>
     mentions_palindrome (lower q) \<or> mentions_letter (lower q) \<or>
     mentions_first_vowel (lower q)) \<and>
    (\<forall>ds. leftmost_longer_than (lower q) ds \<longrightarrow> length ds \<le> int_max_str_digits) \<longrightarrow>
      (\<exists>f. parse_nl_query q = Inr f \<and> parse_rules (lower q) = Inr f \<and>
           word_count f = (if mentions_single_word (lower q) then Some 1 else None) \<and>
           is_palindrome f = (if mentions_palindrome (lower q) then Some True else None) \<and>
           (min_length f \<noteq> None \<longleftrightarrow> mentions_longer_than (lower q)) \<and>
           (\<forall>ds. leftmost_longer_than (lower q) ds \<longrightarrow>
                 min_length f = Some (decimal_value ds + 1)) \<and>
           (contains_character f \<noteq> None \<longleftrightarrow>
              mentions_letter (lower q) \<or> mentions_first_vowel (lower q)) \<and>
           max_length f = None)) \<and>
   (\<forall>ds. leftmost_longer_than (lower q) ds \<and> int_max_str_digits < length ds \<longrightarrow>
      parse_nl_query q = Inl (ValueError (int_limit_message (length ds)))) \<and>
   parse_nl_query ''xyz123'' = Inl (ValueError ''Unable to parse natural language query'')"
proof -
  let ?t = "lower q"
  let ?any = "mentions_single_word ?t \<or> mentions_longer_than ?t \<or>
     mentions_palindrome ?t \<or> mentions_letter ?t \<or> mentions_first_vowel ?t"
  have ex: "parse_nl_query ''xyz123'' = Inl (ValueError ''Unable to parse natural language query'')"
    by (simp add: eval_defs)
  have long: "\<forall>ds. leftmost_longer_than ?t ds \<and> int_max_str_digits < length ds \<longrightarrow>
      parse_nl_query q = Inl (ValueError (int_limit_message (length ds)))"
    using parse_nl_query_number_too_long by blast
  show ?thesis
  proof (cases "parse_rules ?t")
    case (Inl e)
    from parse_rules_InlD [OF Inl] obtain g where
      g: "re_search match_longer_than ?t = Some g" "int_max_str_digits < length g"
         "e = ValueError (int_limit_message (length g))"
      by blast
    have m2: "mentions_longer_than ?t"
      using g(1) search_longer_than [of ?t] by simp
    have lm: "leftmost_longer_than ?t g"
      using g(1) by (simp add: search_longer_than_Some)
    have "parse_nl_query q = Inl (ValueError (int_limit_message (length g)))"
      using Inl g(3) by (simp add: parse_nl_query_of_error)
    then have a: "parse_nl_query q \<noteq> Inl (ValueError ''Unable to parse natural language query'')"
      by (simp add: int_limit_message_distinct)
    have b: "\<not> (\<forall>ds. leftmost_longer_than ?t ds \<longrightarrow> length ds \<le> int_max_str_digits)"
      using lm g(2) by (metis not_le)
    show ?thesis
      using a b m2 Inl ex long by simp
  next
    case (Inr f)
    note pq = parse_nl_query_of_rules [OF Inr]
    note fields = parse_rules_fields [OF Inr]
    have e: "f = no_filters \<longleftrightarrow> \<not> ?any"
      using parse_rules_empty_iff [OF Inr] .
    have ml: "min_length f \<noteq> None \<longleftrightarrow> mentions_longer_than ?t"
      by (simp add: fields(2) search_longer_than [symmetric])
    have mv: "\<forall>ds. leftmost_longer_than ?t ds \<longrightarrow> min_length f = Some (decimal_value ds + 1)"
      using parse_rules_min_length_leftmost [OF Inr] by blast
    have cc: "contains_character f \<noteq> None \<longleftrightarrow>
         mentions_letter ?t \<or> mentions_first_vowel ?t"
      by (auto simp: fields(4) search_contains_letter [symmetric])
    have c1: "parse_nl_query q = Inl (ValueError ''Unable to parse natural language query'') \<longleftrightarrow> \<not> ?any"
      using pq e by auto
    have first_vowel_sets_a: "parse_nl_query q = Inl (ValueError ''Unable to parse natural language query'') \<longleftrightarrow>
      parse_rules ?t = Inr no_filters"
      using pq Inr by auto
    have c3: "?any \<longrightarrow> (\<exists>f. parse_nl_query q = Inr f \<and> parse_rules ?t = Inr f \<and>
           word_count f = (if mentions_single_word ?t then Some 1 else None) \<and>
           is_palindrome f = (if mentions_palindrome ?t then Some True else None) \<and>
           (min_length f \<noteq> None \<longleftrightarrow> mentions_longer_than ?t) \<and>
           (\<forall>ds. leftmost_longer_than ?t ds \<longrightarrow>
                 min_length f = Some (decimal_value ds + 1)) \<and>
           (contains_character f \<noteq> None \<longleftrightarrow>
              mentions_letter ?t \<or> mentions_first_vowel ?t) \<and>
           max_length f = None)"
      using pq e Inr fields(1,3,5) ml mv cc by auto
    show ?thesis
      using c1 first_vowel_sets_a c3 long ex by blast
  qed
qed

theorem parse_error_iff_no_rule_matched_witness:
  "mentions_palindrome (lower ''Palindromes'') \<and>
   (\<exists>f. parse_nl_query ''Palindromes'' = Inr f \<and> is_palindrome f = Some True)"
proof -
  have l: "lower ''Palindromes'' = ''palindromes''" by code_simp
  have a: "mentions_palindrome (lower ''Palindromes'')"
    unfolding l by (simp add: mentions_palindrome_def sublist_Cons_right)
  have "re_search match_longer_than (lower ''Palindromes'') = None"
    unfolding l by (simp add: match_longer_than_def lit_def)
  then have b: "\<forall>ds. leftmost_longer_than (lower ''Palindromes'') ds
                  \<longrightarrow> length ds \<le> int_max_str_digits"
    by (rule no_number_within_limit)
  show ?thesis
    using a b parse_error_iff_no_rule_matched [of "''Palindromes''"] by auto
qed

text \<open>
  Claim C7, as it is stated, says that the accumulated dictionary is returned whenever a
  rule matched and no conflict arises. In the text \<open>longer than\<close> followed by 4301 digits
  rule 2 matches, and \<open>parse_nl_query\<close> raises the \<open>ValueError\<close> of \<open>int\<close>.
\<close>

theorem rule_matched_but_int_raises_counterexample:
  "mentions_longer_than (lower (''longer than '' @ replicate 4301 CHR ''1'')) \<and>
   parse_nl_query (''longer than '' @ replicate 4301 CHR ''1'') =
     Inl (ValueError (int_limit_message 4301))"
proof -
  have n: "int_max_str_digits < 4301" by (simp add: int_max_str_digits_def)
  show ?thesis
    using long_number_alone [OF n] by (rule conjI)
qed

text \<open>
  Claim C8, as the code has it. In every dictionary that \<open>parse_nl_query\<close> returns,
  \<open>word_count\<close> is 1 exactly when the lower-cased text contains \<open>single word\<close> or
  \<open>one word\<close> (the word \<open>single\<close> or \<open>one\<close>, one space, \<open>word\<close>), and is absent
  otherwise. A text that contains one of them gives a dictionary with \<open>word_count = 1\<close>
  provided the number of rule 2, if rule 2 matched, has at most 4300 digits. The text
  \<open>single word strings\<close> gives \<open>{word_count: 1}\<close>.
\<close>

theorem word_count_one_iff_single_word:
  "(\<forall>f. parse_nl_query q = Inr f \<longrightarrow>
      word_count f = (if mentions_single_word (lower q) then Some 1 else None)) \<and>
   ((\<exists>f. parse_nl_query q = Inr f \<and> word_count f = Some 1) \<longrightarrow>
      mentions_single_word (lower q)) \<and>
   (mentions_single_word (lower q) \<and>
    (\<forall>ds. leftmost_longer_than (lower q) ds \<longrightarrow> length ds \<le> int_max_str_digits) \<longrightarrow>
      (\<exists>f. parse_nl_query q = Inr f \<and> word_count f = Some 1)) \<and>
   parse_nl_query ''single word strings'' = Inr (no_filters\<lparr>word_count := Some 1\<rparr>)"
proof -
  have ex: "parse_nl_query ''single word strings'' = Inr (no_filters\<lparr>word_count := Some 1\<rparr>)"
    by (simp add: eval_defs)
  have a: "word_count f = (if mentions_single_word (lower q) then Some 1 else None)"
    if "parse_nl_query q = Inr f" for f
  proof (cases "parse_rules (lower q)")
    case (Inl e)
    then show ?thesis using that by (simp add: parse_nl_query_of_error)
  next
    case (Inr f')
    then have "f' = f" using that parse_nl_query_of_rules [OF Inr] by (simp split: if_splits)
    then show ?thesis using parse_rules_fields(1) [OF Inr] by simp
  qed
  have b: "\<exists>f. parse_nl_query q = Inr f \<and> word_count f = Some 1"
    if "mentions_single_word (lower q)"
      and "\<forall>ds. leftmost_longer_than (lower q) ds \<longrightarrow> length ds \<le> int_max_str_digits"
  proof -
    from returns_within_limit [OF that(2)] obtain f where f: "parse_rules (lower q) = Inr f"
      by blast
    have "f \<noteq> no_filters" using parse_rules_empty_iff [OF f] that(1) by simp
    then show ?thesis
      using parse_nl_query_of_rules [OF f] parse_rules_fields(1) [OF f] that(1) by simp
  qed
  have c: "mentions_single_word (lower q)"
    if "\<exists>f. parse_nl_query q = Inr f \<and> word_count f = Some 1"
  proof -
    from that obtain f where f: "parse_nl_query q = Inr f" "word_count f = Some 1" by blast
    show ?thesis
    proof (rule ccontr)
      assume "\<not> mentions_single_word (lower q)"
      then have "word_count f = None" using a [OF f(1)] by simp
      then show False using f(2) by simp
    qed
  qed
  show ?thesis
    using a b c ex by (intro conjI allI impI) blast+
qed

theorem word_count_one_iff_single_word_witness:
  "mentions_single_word (lower ''exactly One Word'') \<and>
   (\<exists>f. parse_nl_query ''exactly One Word'' = Inr f \<and> word_count f = Some 1)"
proof -
  have l: "lower ''exactly One Word'' = ''exactly one word''" by code_simp
  have a: "mentions_single_word (lower ''exactly One Word'')"
    unfolding l by (simp add: mentions_single_word_def sublist_Cons_right)
  have "re_search match_longer_than (lower ''exactly One Word'') = None"
    unfolding l by (simp add: match_longer_than_def lit_def)
  then have n: "\<forall>ds. leftmost_longer_than (lower ''exactly One Word'') ds
                  \<longrightarrow> length ds \<le> int_max_str_digits"
    by (rule no_number_within_limit)
  note word_count_one_iff_single_word [of "''exactly One Word''", THEN conjunct2, THEN conjunct2, THEN conjunct1]
  then have "\<exists>f. parse_nl_query ''exactly One Word'' = Inr f \<and> word_count f = Some 1"
    using a n by blast
  then show ?thesis using a by blast
qed

text \<open>
  Claim C8, as it is stated, for every input text: the text \<open>longer than\<close>, 4301 digits,
  \<open>single word\<close> mentions the constraint, and \<open>parse_nl_query\<close> produces no dictionary;
  it raises the \<open>ValueError\<close> of \<open>int\<close>.
\<close>

theorem single_word_but_int_raises_counterexample:
  "mentions_single_word (lower (''longer than '' @ replicate 4301 CHR ''1'' @ '' single word'')) \<and>
   parse_nl_query (''longer than '' @ replicate 4301 CHR ''1'' @ '' single word'') =
     Inl (ValueError (int_limit_message 4301))"
proof -
  have n: "int_max_str_digits < 4301" by (simp add: int_max_str_digits_def)
  have w: "lower ''single word'' = ''single word''" by (simp add: lower_def lower_char_def)
  have "sublist ''single word''
      (lower (''longer than '' @ replicate 4301 CHR ''1'' @ '' single word''))"
    by (rule long_number_before(1) [OF n w])
  then have "mentions_single_word
      (lower (''longer than '' @ replicate 4301 CHR ''1'' @ '' single word''))"
    unfolding mentions_single_word_def by (rule disjI1)
  then show ?thesis
    using long_number_before(2) [OF n w] by (rule conjI)
qed

text \<open>
  Claim C2, as the code has it. Whenever the lower-cased text contains \<open>first vowel\<close>,
  every dictionary that \<open>parse_nl_query\<close> returns has \<open>contains_character = a\<close>, also
  when the pattern of rule 4 matched: rule 5 runs after rule 4 and overwrites its letter.
  A dictionary is returned provided the number of rule 2, if rule 2 matched, has at most
  4300 digits.
\<close>

theorem first_vowel_sets_a:
  "(mentions_first_vowel (lower q) \<longrightarrow>
      (\<forall>f. parse_nl_query q = Inr f \<longrightarrow> contains_character f = Some CHR ''a'')) \<and>
   (mentions_first_vowel (lower q) \<and>
    (\<forall>ds. leftmost_longer_than (lower q) ds \<longrightarrow> length ds \<le> int_max_str_digits) \<longrightarrow>
      (\<exists>f. parse_nl_query q = Inr f \<and> contains_character f = Some CHR ''a'')) \<and>
   (mentions_letter (lower q) \<and> mentions_first_vowel (lower q) \<and>
    (\<forall>ds. leftmost_longer_than (lower q) ds \<longrightarrow> length ds \<le> int_max_str_digits) \<longrightarrow>
      (\<exists>f. parse_nl_query q = Inr f \<and> contains_character f = Some CHR ''a''))"
proof -
  have a: "contains_character f = Some CHR ''a''"
    if "mentions_first_vowel (lower q)" and "parse_nl_query q = Inr f" for f
  proof (cases "parse_rules (lower q)")
    case (Inl e)
    then show ?thesis using that(2) by (simp add: parse_nl_query_of_error)
  next
    case (Inr f')
    then have "f' = f" using that(2) parse_nl_query_of_rules [OF Inr] by (simp split: if_splits)
    then show ?thesis using parse_rules_fields(4) [OF Inr] that(1) by simp
  qed
  have b: "\<exists>f. parse_nl_query q = Inr f \<and> contains_character f = Some CHR ''a''"
    if "mentions_first_vowel (lower q)"
      and "\<forall>ds. leftmost_longer_than (lower q) ds \<longrightarrow> length ds \<le> int_max_str_digits"
  proof -
    from returns_within_limit [OF that(2)] obtain f where f: "parse_rules (lower q) = Inr f"
      by blast
    have "f \<noteq> no_filters" using parse_rules_empty_iff [OF f] that(1) by simp
    then show ?thesis
      using parse_nl_query_of_rules [OF f] parse_rules_fields(4) [OF f] that(1) by simp
  qed
  show ?thesis using a b by blast
qed

theorem first_vowel_sets_a_witness:
  "mentions_letter (lower ''strings containing the letter z and the first vowel'') \<and>
   mentions_first_vowel (lower ''strings containing the letter z and the first vowel'') \<and>
   (\<exists>f. parse_nl_query ''strings containing the letter z and the first vowel'' = Inr f \<and>
        contains_character f = Some CHR ''a'')"
proof -
  have a: "mentions_letter (lower ''strings containing the letter z and the first vowel'')"
    unfolding search_contains_letter [symmetric]
    by (simp add: lower_def lower_char_def match_contains_letter_def lit_def is_a_to_z_def)
  have b: "mentions_first_vowel (lower ''strings containing the letter z and the first vowel'')"
    by (simp add: mentions_first_vowel_def lower_def lower_char_def sublist_Cons_right)
  have "re_search match_longer_than
          (lower ''strings containing the letter z and the first vowel'') = None"
    by (simp add: lower_def lower_char_def match_longer_than_def lit_def)
  then have n: "\<forall>ds. leftmost_longer_than
      (lower ''strings containing the letter z and the first vowel'') ds
        \<longrightarrow> length ds \<le> int_max_str_digits"
    by (rule no_number_within_limit)
  show ?thesis
    using a b n first_vowel_sets_a [of "''strings containing the letter z and the first vowel''"] by blast
qed

text \<open>
  Claim C2, as it is stated, whenever the text contains \<open>first vowel\<close>: the text
  \<open>longer than\<close>, 4301 digits, \<open>first vowel\<close> contains the phrase, and \<open>parse_nl_query\<close>
  raises the \<open>ValueError\<close> of \<open>int\<close> in rule 2, before rule 5 runs.
\<close>

theorem first_vowel_but_int_raises_counterexample:
  "mentions_first_vowel (lower (''longer than '' @ replicate 4301 CHR ''1'' @ '' first vowel'')) \<and>
   parse_nl_query (''longer than '' @ replicate 4301 CHR ''1'' @ '' first vowel'') =
     Inl (ValueError (int_limit_message 4301))"
proof -
  have n: "int_max_str_digits < 4301" by (simp add: int_max_str_digits_def)
  have w: "lower ''first vowel'' = ''first vowel''" by (simp add: lower_def lower_char_def)
  have "mentions_first_vowel
      (lower (''longer than '' @ replicate 4301 CHR ''1'' @ '' first vowel''))"
    unfolding mentions_first_vowel_def by (rule long_number_before(1) [OF n w])
  then show ?thesis
    using long_number_before(2) [OF n w] by (rule conjI)
qed

text \<open>
  Claim C6, as the code has it. \<open>re.search\<close> takes the leftmost match, the pattern asks
  for one space between \<open>longer than\<close> and the number, and \<open>int\<close> refuses more than 4300
  digits. For every input text whose lower-cased form is \<open>pre\<close>, then \<open>longer than\<close> and
  one space, then the decimal number \<open>ds\<close> (a non-empty run of digits that no further
  digit follows), then \<open>post\<close>, and in which no occurrence of \<open>longer than\<close>, one space
  and a digit begins before the end of \<open>pre\<close>: when \<open>ds\<close> has at most 4300 digits,
  \<open>parse_nl_query\<close> returns a dictionary with \<open>min_length = N + 1\<close>, where \<open>N\<close> is the
  number that \<open>ds\<close> denotes; when it has more, \<open>parse_nl_query\<close> raises the \<open>ValueError\<close>
  of \<open>int\<close>. The text \<open>strings longer than 5\<close> gives \<open>{min_length: 6}\<close>.
\<close>

theorem longer_than_leftmost_sets_min_length:
  assumes "lower q = pre @ ''longer than '' @ ds @ post"
    and "ds \<noteq> []" and "\<forall>c\<in>set ds. isdigit c"
    and "post = [] \<or> \<not> isdigit (hd post)"
    and "\<forall>pre' d rest. lower q = pre' @ ''longer than '' @ d # rest \<and> isdigit d
            \<longrightarrow> length pre \<le> length pre'"
  shows "(length ds \<le> int_max_str_digits \<longrightarrow>
            (\<exists>f. parse_nl_query q = Inr f \<and> min_length f = Some (decimal_value ds + 1))) \<and>
         (int_max_str_digits < length ds \<longrightarrow>
            parse_nl_query q = Inl (ValueError (int_limit_message (length ds)))) \<and>
         parse_nl_query ''strings longer than 5'' = Inr (no_filters\<lparr>min_length := Some 6\<rparr>)"
proof -
  have ex: "parse_nl_query ''strings longer than 5'' = Inr (no_filters\<lparr>min_length := Some 6\<rparr>)"
    by (simp add: eval_defs)
  have lm: "leftmost_longer_than (lower q) ds"
    unfolding leftmost_longer_than_def using assms by blast
  then have s: "re_search match_longer_than (lower q) = Some ds"
    by (simp only: search_longer_than_Some)
  have a: "\<exists>f. parse_nl_query q = Inr f \<and> min_length f = Some (decimal_value ds + 1)"
    if "length ds \<le> int_max_str_digits"
  proof -
    have "\<forall>g. re_search match_longer_than (lower q) = Some g \<longrightarrow> length g \<le> int_max_str_digits"
      using s that by simp
    from parse_rules_returns [OF this] obtain f where f: "parse_rules (lower q) = Inr f"
      by blast
    have ml: "min_length f = Some (decimal_value ds + 1)"
      using parse_rules_min_length_leftmost [OF f lm] .
    then have "f \<noteq> no_filters" by (auto simp: no_filters_def)
    then show ?thesis
      using parse_nl_query_of_rules [OF f] ml by simp
  qed
  have b: "parse_nl_query q = Inl (ValueError (int_limit_message (length ds)))"
    if "int_max_str_digits < length ds"
    using parse_nl_query_number_too_long [OF lm that] .
  show ?thesis using a b ex by blast
qed

theorem longer_than_leftmost_sets_min_length_witness:
  "lower ''longer than 5 or longer than 10'' = [] @ ''longer than '' @ ''5'' @ '' or longer than 10'' \<and>
   (\<exists>f. parse_nl_query ''longer than 5 or longer than 10'' = Inr f \<and> min_length f = Some 6)"
proof -
  have l: "lower ''longer than 5 or longer than 10'' = [] @ ''longer than '' @ ''5'' @ '' or longer than 10''"
    by (simp add: lower_def lower_char_def)
  have d: "\<forall>c\<in>set ''5''. isdigit c" by (simp add: isdigit_def)
  have p: "'' or longer than 10'' = [] \<or> \<not> isdigit (hd '' or longer than 10'')"
    by (simp add: isdigit_def)
  have f: "\<forall>pre' d rest. lower ''longer than 5 or longer than 10'' = pre' @ ''longer than '' @ d # rest \<and> isdigit d
            \<longrightarrow> length ([] :: string) \<le> length pre'"
    by simp
  have k: "length ''5'' \<le> int_max_str_digits" by (simp add: int_max_str_digits_def)
  have n: "decimal_value ''5'' + 1 = 6" by (simp add: decimal_value_def digit_value_def)
  note longer_than_leftmost_sets_min_length [OF l _ d p f, THEN conjunct1]
  then have "\<exists>f. parse_nl_query ''longer than 5 or longer than 10'' = Inr f \<and>
      min_length f = Some (decimal_value ''5'' + 1)"
    using k by simp
  then show ?thesis using l n by simp
qed

text \<open>
  Claim C6, as it is stated, for any occurrence of \<open>longer than\<close> followed by a decimal
  number. The text \<open>strings longer than 5 or longer than 10\<close> contains \<open>longer than\<close>
  followed by the number 10, and the result is \<open>{min_length: 6}\<close>, not 11. The text
  \<open>strings longer than5\<close> contains \<open>longer than\<close> followed by the number 5, and the
  result is the error of the unparsable query. The text \<open>longer than\<close> followed by a
  number of 5000 digits raises the \<open>ValueError\<close> of \<open>int\<close>.
\<close>

theorem longer_than_any_occurrence_counterexample:
  "lower ''strings longer than 5 or longer than 10'' =
     ''strings longer than 5 or '' @ ''longer than '' @ ''10'' @ [] \<and>
   list_all isdigit ''10'' \<and> decimal_value ''10'' = 10 \<and>
   parse_nl_query ''strings longer than 5 or longer than 10'' =
     Inr \<lparr>is_palindrome = None, min_length = Some 6, max_length = None,
          word_count = None, contains_character = None\<rparr> \<and>
   min_length \<lparr>is_palindrome = None, min_length = Some 6, max_length = None,
          word_count = None, contains_character = None\<rparr> \<noteq> Some (10 + 1) \<and>
   lower ''strings longer than5'' = ''strings '' @ ''longer than'' @ ''5'' @ [] \<and>
   parse_nl_query ''strings longer than5'' =
     Inl (ValueError ''Unable to parse natural language query'') \<and>
   parse_nl_query (''longer than '' @ replicate 5000 CHR ''1'') =
     Inl (ValueError (int_limit_message 5000))"
proof -
  have n: "int_max_str_digits < 5000" by (simp add: int_max_str_digits_def)
  have a: "lower ''strings longer than 5 or longer than 10'' =
     ''strings longer than 5 or '' @ ''longer than '' @ ''10'' @ [] \<and>
   list_all isdigit ''10'' \<and> decimal_value ''10'' = 10 \<and>
   parse_nl_query ''strings longer than 5 or longer than 10'' =
     Inr \<lparr>is_palindrome = None, min_length = Some 6, max_length = None,
          word_count = None, contains_character = None\<rparr> \<and>
   min_length \<lparr>is_palindrome = None, min_length = Some 6, max_length = None,
          word_count = None, contains_character = None\<rparr> \<noteq> Some (10 + 1) \<and>
   lower ''strings longer than5'' = ''strings '' @ ''longer than'' @ ''5'' @ [] \<and>
   parse_nl_query ''strings longer than5'' =
     Inl (ValueError ''Unable to parse natural language query'')"
    by (simp add: eval_defs)
  show ?thesis
    using a long_number_alone(2) [OF n] by (intro conjI) (erule conjE | assumption)+
qed

text \<open>
  Claim C10, as the code has it. For every input text, \<open>parse_nl_query\<close> never raises
  the conflict error: no rule sets \<open>max_length\<close>, in the dictionary of the rules and in
  every dictionary returned, so the conflict branch is not reachable. The translator
  either raises the error of the unparsable query, or raises the \<open>ValueError\<close> of \<open>int\<close>
  because the number of rule 2 has more than 4300 digits, or returns a dictionary.
\<close>

theorem parse_nl_query_never_conflicts:
  "parse_nl_query q \<noteq> Inl (ValueError ''Query parsed but resulted in conflicting filters'') \<and>
   (\<forall>f. parse_rules (lower q) = Inr f \<longrightarrow> max_length f = None) \<and>
   (\<forall>f. parse_nl_query q = Inr f \<longrightarrow> max_length f = None) \<and>
   (parse_nl_query q = Inl (ValueError ''Unable to parse natural language query'') \<or>
    (\<exists>ds. leftmost_longer_than (lower q) ds \<and> int_max_str_digits < length ds \<and>
          parse_nl_query q = Inl (ValueError (int_limit_message (length ds)))) \<or>
    (\<exists>f. parse_nl_query q = Inr f))"
proof (cases "parse_rules (lower q)")
  case (Inl e)
  from parse_rules_InlD [OF Inl] obtain g where
    g: "re_search match_longer_than (lower q) = Some g" "int_max_str_digits < length g"
       "e = ValueError (int_limit_message (length g))"
    by blast
  have lm: "leftmost_longer_than (lower q) g"
    using g(1) by (simp only: search_longer_than_Some)
  have pq: "parse_nl_query q = Inl (ValueError (int_limit_message (length g)))"
    using Inl g(3) by (simp add: parse_nl_query_of_error)
  then have "parse_nl_query q \<noteq> Inl (ValueError ''Query parsed but resulted in conflicting filters'')"
    by (simp add: int_limit_message_distinct)
  moreover have "\<forall>f. parse_rules (lower q) = Inr f \<longrightarrow> max_length f = None"
    using Inl by simp
  moreover have "\<forall>f. parse_nl_query q = Inr f \<longrightarrow> max_length f = None"
    using pq by simp
  moreover have "\<exists>ds. leftmost_longer_than (lower q) ds \<and> int_max_str_digits < length ds \<and>
          parse_nl_query q = Inl (ValueError (int_limit_message (length ds)))"
    using lm g(2) pq by blast
  ultimately show ?thesis by blast
next
  case (Inr f)
  have ml: "max_length f = None" using Inr by (rule parse_rules_fields(5))
  have pq: "parse_nl_query q =
     (if f = no_filters then Inl (ValueError ''Unable to parse natural language query'')
      else Inr f)"
    using Inr by (rule parse_nl_query_of_rules)
  have "parse_nl_query q \<noteq> Inl (ValueError ''Query parsed but resulted in conflicting filters'')"
    using pq by simp
  moreover have "\<forall>f. parse_rules (lower q) = Inr f \<longrightarrow> max_length f = None"
    using Inr ml by simp
  moreover have "\<forall>f'. parse_nl_query q = Inr f' \<longrightarrow> max_length f' = None"
    using pq ml by (simp split: if_splits)
  moreover have "parse_nl_query q = Inl (ValueError ''Unable to parse natural language query'') \<or>
      (\<exists>f. parse_nl_query q = Inr f)"
    using pq by simp
  ultimately show ?thesis by blast
qed

theorem parse_nl_query_never_conflicts_witness:
  "parse_nl_query ''palindromes'' = Inr (no_filters\<lparr>is_palindrome := Some True\<rparr>) \<and>
   max_length (no_filters\<lparr>is_palindrome := Some True\<rparr>) = None"
proof -
  have a: "parse_nl_query ''palindromes'' = Inr (no_filters\<lparr>is_palindrome := Some True\<rparr>)"
    by (simp add: eval_defs)
  note parse_nl_query_never_conflicts [of "''palindromes''", THEN conjunct2, THEN conjunct2, THEN conjunct1]
  then have "max_length (no_filters\<lparr>is_palindrome := Some True\<rparr>) = None"
    using a by blast
  then show ?thesis using a by blast
qed

text \<open>
  Claim C10, as it is stated, says that the only error is the one of the unparsable
  query. The text \<open>longer than\<close>, 4301 digits, \<open>characters\<close> raises the \<open>ValueError\<close> of
  \<open>int\<close>, whose message is another one.
\<close>

theorem int_error_is_a_third_error_counterexample:
  "parse_nl_query (''longer than '' @ replicate 4301 CHR ''1'' @ '' characters'') =
     Inl (ValueError (int_limit_message 4301)) \<and>
   int_limit_message 4301 \<noteq> ''Unable to parse natural language query''"
proof -
  have n: "int_max_str_digits < 4301" by (simp add: int_max_str_digits_def)
  have w: "lower ''characters'' = ''characters''" by (simp add: lower_def lower_char_def)
  show ?thesis
    using long_number_before(2) [OF n w] int_limit_message_distinct(1) [of 4301]
    by (rule conjI)
qed

end
